theory Spec2Isabelle
  imports Main "HOL-Library.Word"
begin

unbundle bit_operations_syntax

section \<open>Errors and results\<close>

text \<open>
  A Go method of package jtag returns a value together with an \<open>error\<close>, or only an
  \<open>error\<close>. The model writes \<open>(v, nil)\<close> as \<open>Inr v\<close> and \<open>(_, err)\<close> with a non-nil
  \<open>err\<close> as \<open>Inl err\<close>. A run-time panic is neither: it unwinds through every caller
  and no \<open>if err != nil\<close> sees it. It is the error \<open>Panic p\<close>, which every caller
  passes on.

  The error of a scan driver is an arbitrary Go \<open>error\<close> value; the model keeps its
  message. \<open>Errorf\<close> is the error built by \<open>fmt.Errorf\<close>.
\<close>

datatype panic = RangeError | NilPointer | IndexOutOfRange | NegativeShift

datatype error = TransportError string | Errorf string | Panic panic

definition bindR :: "error + 'a \<Rightarrow> ('a \<Rightarrow> error + 'b) \<Rightarrow> error + 'b" where
  "bindR m f = (case m of Inl e \<Rightarrow> Inl e | Inr x \<Rightarrow> f x)"

section \<open>Bit strings\<close>

text \<open>
  Modelled from the spec: package \<open>bitstr\<close> (imported by device.go as
  \<open>github.com/deadsy/rvdbg/bitstr\<close>) is not among the source files. The definitions of
  this section follow section 4.1 of the specification: a bit string is an ordered
  sequence of bits, \<open>Tail\<close> places the other string's bits after the receiver's,
  \<open>DropHead\<close> and \<open>DropTail\<close> remove the first and the last n bits, integers are read
  and written most significant bit first, and a count that is negative or exceeds the
  string fails fast with \<open>RangeError\<close> instead of padding. A bit string function
  returns no Go error, so its failure is a panic of the calling method.
\<close>

type_synonym BitString = "bool list"

definition Ones :: "int \<Rightarrow> error + BitString" where
  "Ones n = (if n < 0 then Inl (Panic RangeError) else Inr (replicate (nat n) True))"

definition Zeros :: "int \<Rightarrow> error + BitString" where
  "Zeros n = (if n < 0 then Inl (Panic RangeError) else Inr (replicate (nat n) False))"

definition FromUint :: "nat \<Rightarrow> int \<Rightarrow> error + BitString" where
  "FromUint x n =
     (if n < 0 \<or> 2 ^ nat n \<le> x then Inl (Panic RangeError)
      else Inr (map (\<lambda>i. bit x i) (rev [0 ..< nat n])))"

definition Tail :: "BitString \<Rightarrow> BitString \<Rightarrow> BitString" where
  "Tail b a = b @ a"

definition Tail1 :: "BitString \<Rightarrow> int \<Rightarrow> error + BitString" where
  "Tail1 b n = bindR (Ones n) (\<lambda>a. Inr (Tail b a))"

definition DropHead :: "BitString \<Rightarrow> int \<Rightarrow> error + BitString" where
  "DropHead b n =
     (if n < 0 \<or> int (length b) < n then Inl (Panic RangeError) else Inr (drop (nat n) b))"

definition DropTail :: "BitString \<Rightarrow> int \<Rightarrow> error + BitString" where
  "DropTail b n =
     (if n < 0 \<or> int (length b) < n then Inl (Panic RangeError)
      else Inr (take (length b - nat n) b))"

definition bits_val :: "BitString \<Rightarrow> nat" where
  "bits_val b = foldl (\<lambda>acc x. 2 * acc + (if x then 1 else 0)) 0 b"

fun split_pieces :: "nat list \<Rightarrow> BitString \<Rightarrow> nat list" where
  "split_pieces [] b = []"
| "split_pieces (n # ns) b = bits_val (take n b) # split_pieces ns (drop n b)"

definition Split :: "BitString \<Rightarrow> int list \<Rightarrow> error + nat list" where
  "Split b ls =
     (if list_ex (\<lambda>l. l < 0) ls \<or> sum_list ls \<noteq> int (length b) then Inl (Panic RangeError)
      else Inr (split_pieces (map nat ls) b))"

section \<open>Scan driver, chain and device\<close>

text \<open>
  \<open>Driver\<close> is the interface of device.go's \<open>drv\<close> field: \<open>ScanIR(tdi, needRead)\<close> and
  \<open>ScanDR(tdi, idle, needRead)\<close> return the captured bit string (a pointer, which may
  be nil) and an error. A driver acts on the state \<open>'s\<close> of the probe and of the
  hardware behind it.
\<close>

record 's Driver =
  ScanIR :: "BitString \<Rightarrow> bool \<Rightarrow> 's \<Rightarrow> (string + BitString option) \<times> 's"
  ScanDR :: "BitString \<Rightarrow> nat \<Rightarrow> bool \<Rightarrow> 's \<Rightarrow> (string + BitString option) \<times> 's"

text \<open>
  The identification code is a 32-bit number. Go's \<open>int\<close> and \<open>uint\<close> have 64 bits.
  They are modelled by \<open>int\<close> and \<open>nat\<close>, with the wrap-around written out where a
  result can leave the range: \<open>a - b\<close> on the probed length is \<open>sub64\<close>, the difference
  brought back into the range from \<open>- 2 ^ 63\<close> to \<open>2 ^ 63 - 1\<close>; the conversion
  \<open>uint(x)\<close> is \<open>uint64\<close>, the value modulo \<open>2 ^ 64\<close>; the shift \<open>1 << n\<close> is \<open>shl1\<close>
  below. In \<open>NewDevice\<close> the index lies inside the slice, and in the loop of \<open>Survey\<close>
  the counter is below the bound when it is incremented, so these stay in range.
\<close>

type_synonym IDCode = "32 word"

definition wrap64 :: "int \<Rightarrow> int" where
  "wrap64 i = (i + 2 ^ 63) mod 2 ^ 64 - 2 ^ 63"

definition sub64 :: "int \<Rightarrow> int \<Rightarrow> int" where
  "sub64 a b = wrap64 (a - b)"

definition uint64 :: "int \<Rightarrow> nat" where
  "uint64 i = nat (i mod 2 ^ 64)"

record DeviceInfo =
  Name :: string
  ID :: IDCode
  IRLength :: int

text \<open>
  The chain holds the device descriptors in chain order and the driver. Its method
  \<open>drLength\<close>, the live probe of the total length of the data register path, is not
  among the source files; it is taken as a parameter: a scan operation on the driver
  state that returns a length or a transport error.
\<close>

record 's Chain =
  info :: "DeviceInfo list"
  chain_drv :: "'s Driver"
  drLength :: "'s \<Rightarrow> (string + int) \<times> 's"

text \<open>
  Modelled from the spec: the methods \<open>irLengthBefore\<close> and \<open>irLengthAfter\<close> of the
  chain information are not among the source files. By section 3 they are the
  instruction register bits contributed by the devices strictly before and strictly
  after the position.
\<close>

definition irLengthBefore :: "DeviceInfo list \<Rightarrow> int \<Rightarrow> int" where
  "irLengthBefore ci i = sum_list (map IRLength (take (nat i) ci))"

definition irLengthAfter :: "DeviceInfo list \<Rightarrow> int \<Rightarrow> int" where
  "irLengthAfter ci i = sum_list (map IRLength (drop (nat i + 1) ci))"

record 's Device =
  idx :: int
  chain :: "'s Chain"
  drv :: "'s Driver"
  name :: string
  idcode :: IDCode
  irlen :: int
  irlenBefore :: int
  irlenAfter :: int
  devsBefore :: int
  devsAfter :: int

text \<open>\<open>ch.info[idx]\<close> panics when the index is outside the slice.\<close>

definition NewDevice :: "'s Chain \<Rightarrow> int \<Rightarrow> error + 's Device" where
  "NewDevice ch i =
     (if i < 0 \<or> int (length (info ch)) \<le> i then Inl (Panic IndexOutOfRange)
      else Inr \<lparr> idx = i,
                 chain = ch,
                 drv = chain_drv ch,
                 name = Name (info ch ! nat i),
                 idcode = ID (info ch ! nat i),
                 irlen = IRLength (info ch ! nat i),
                 irlenBefore = irLengthBefore (info ch) i,
                 irlenAfter = irLengthAfter (info ch) i,
                 devsBefore = i,
                 devsAfter = int (length (info ch)) - i - 1 \<rparr>)"

section \<open>Device operations\<close>

text \<open>
  The methods have the pointer receiver \<open>dev *Device\<close>. The state they run in holds
  the receiver's object and the driver state; a method reads the fields from the
  state each time the source reads them.

  \<open>RdWrIR\<close> and \<open>RdWrDR\<close> drop the neighbours' bits in place:
  \<open>tdo.DropHead(n).DropTail(m)\<close> changes the bit string behind \<open>tdo\<close>, and the methods
  return \<open>tdo\<close>. In the model the result of the two drops is the returned string. A
  driver that returns no bit string although a capture was requested makes the drop
  a nil pointer dereference.
\<close>

record 's world =
  this :: "'s Device"
  hw :: "'s"

text \<open>
  The call of a driver function: it acts on the driver state. The fields of \<open>Device\<close>
  are unexported fields of package jtag and the driver is handed bit strings only,
  so a scan has no access to the receiver.
\<close>

definition call_drv ::
  "('s \<Rightarrow> (string + 'a) \<times> 's) \<Rightarrow> 's world \<Rightarrow> (error + 'a) \<times> 's world" where
  "call_drv f w =
     (case f (hw w) of
        (Inl msg, h) \<Rightarrow> (Inl (TransportError msg), w\<lparr>hw := h\<rparr>)
      | (Inr x, h) \<Rightarrow> (Inr x, w\<lparr>hw := h\<rparr>))"

definition WrIR :: "BitString \<Rightarrow> 's world \<Rightarrow> (error + unit) \<times> 's world" where
  "WrIR wr w =
     (case bindR (Ones (irlenBefore (this w))) (\<lambda>b. Tail1 (Tail b wr) (irlenAfter (this w))) of
        Inl e \<Rightarrow> (Inl e, w)
      | Inr tdi \<Rightarrow>
          (case call_drv (ScanIR (drv (this w)) tdi False) w of
             (Inl err, w') \<Rightarrow> (Inl err, w')
           | (Inr _, w') \<Rightarrow> (Inr (), w')))"

definition RdWrIR :: "BitString \<Rightarrow> 's world \<Rightarrow> (error + BitString) \<times> 's world" where
  "RdWrIR wr w =
     (case bindR (Ones (irlenBefore (this w))) (\<lambda>b. Tail1 (Tail b wr) (irlenAfter (this w))) of
        Inl e \<Rightarrow> (Inl e, w)
      | Inr tdi \<Rightarrow>
          (case call_drv (ScanIR (drv (this w)) tdi True) w of
             (Inl err, w') \<Rightarrow> (Inl err, w')
           | (Inr None, w') \<Rightarrow> (Inl (Panic NilPointer), w')
           | (Inr (Some tdo), w') \<Rightarrow>
               (bindR (DropHead tdo (irlenBefore (this w')))
                  (\<lambda>t. DropTail t (irlenAfter (this w'))), w')))"

definition WrDR :: "BitString \<Rightarrow> nat \<Rightarrow> 's world \<Rightarrow> (error + unit) \<times> 's world" where
  "WrDR wr idle w =
     (case bindR (Ones (devsBefore (this w))) (\<lambda>b. Tail1 (Tail b wr) (devsAfter (this w))) of
        Inl e \<Rightarrow> (Inl e, w)
      | Inr tdi \<Rightarrow>
          (case call_drv (ScanDR (drv (this w)) tdi idle False) w of
             (Inl err, w') \<Rightarrow> (Inl err, w')
           | (Inr _, w') \<Rightarrow> (Inr (), w')))"

definition RdWrDR :: "BitString \<Rightarrow> nat \<Rightarrow> 's world \<Rightarrow> (error + BitString) \<times> 's world" where
  "RdWrDR wr idle w =
     (case bindR (Ones (devsBefore (this w))) (\<lambda>b. Tail1 (Tail b wr) (devsAfter (this w))) of
        Inl e \<Rightarrow> (Inl e, w)
      | Inr tdi \<Rightarrow>
          (case call_drv (ScanDR (drv (this w)) tdi idle True) w of
             (Inl err, w') \<Rightarrow> (Inl err, w')
           | (Inr None, w') \<Rightarrow> (Inl (Panic NilPointer), w')
           | (Inr (Some tdo), w') \<Rightarrow>
               (bindR (DropHead tdo (devsBefore (this w')))
                  (\<lambda>t. DropTail t (devsAfter (this w'))), w')))"

text \<open>
  \<open>fmt.Sprintf\<close> with the verb \<open>%d\<close>: the decimal digits, after a minus sign for a
  negative number.
\<close>

fun dec_nat :: "nat \<Rightarrow> string" where
  "dec_nat n =
     (if n < 10 then [''0123456789'' ! n]
      else dec_nat (n div 10) @ [''0123456789'' ! (n mod 10)])"

definition dec_int :: "int \<Rightarrow> string" where
  "dec_int i = (if i < 0 then ''-'' @ dec_nat (nat (- i)) else dec_nat (nat i))"

text \<open>
  \<open>rd.Split([]int{dev.irlen})[0]\<close>: the first of the pieces; indexing an empty slice
  panics.
\<close>

definition first_piece :: "nat list \<Rightarrow> error + nat" where
  "first_piece vs = (case vs of [] \<Rightarrow> Inl (Panic IndexOutOfRange) | v # _ \<Rightarrow> Inr v)"

definition testIRCapture :: "'s world \<Rightarrow> (error + bool) \<times> 's world" where
  "testIRCapture w =
     (case Ones (irlen (this w)) of
        Inl e \<Rightarrow> (Inl e, w)
      | Inr wr \<Rightarrow>
          (case RdWrIR wr w of
             (Inl err, w') \<Rightarrow> (Inl err, w')
           | (Inr rd, w') \<Rightarrow>
               (bindR (bindR (Split rd [irlen (this w')]) first_piece)
                  (\<lambda>val. Inr (val AND 3 = 1)), w')))"

definition GetIRLength :: "'s world \<Rightarrow> int \<times> 's world" where
  "GetIRLength w = (irlen (this w), w)"

definition GetDRLength :: "'s world \<Rightarrow> (error + int) \<times> 's world" where
  "GetDRLength w =
     (case call_drv (drLength (chain (this w))) w of
        (Inl err, w') \<Rightarrow> (Inl err, w')
      | (Inr n, w') \<Rightarrow>
          (Inr (sub64 (sub64 n (devsAfter (this w'))) (devsBefore (this w'))), w'))"

text \<open>
  In \<open>CheckDR\<close> the first two tests of \<open>err != nil\<close> end in \<open>return 0, nil\<close>: the
  value 0 and no error. The third ends in \<open>return 0, err\<close>. The instruction \<open>ir\<close> is
  a \<open>uint\<close>. The result is a \<open>uint\<close> as well: \<open>uint(...)\<close> of the first piece of
  \<open>Split\<close>, which keeps the low 64 bits of a wider piece.
\<close>

definition CheckDR :: "nat \<Rightarrow> int \<Rightarrow> 's world \<Rightarrow> (error + nat) \<times> 's world" where
  "CheckDR ir drlen w =
     (case FromUint ir (irlen (this w)) of
        Inl e \<Rightarrow> (Inl e, w)
      | Inr b \<Rightarrow>
          (case WrIR b w of
             (Inl err, w1) \<Rightarrow>
               (case err of Panic p \<Rightarrow> (Inl err, w1) | _ \<Rightarrow> (Inr 0, w1))
           | (Inr _, w1) \<Rightarrow>
               (case GetDRLength w1 of
                  (Inl err, w2) \<Rightarrow>
                    (case err of Panic p \<Rightarrow> (Inl err, w2) | _ \<Rightarrow> (Inr 0, w2))
                | (Inr n, w2) \<Rightarrow>
                    if n \<noteq> drlen then
                      (Inl (Errorf (''ir '' @ dec_nat ir @ '' dr length is '' @ dec_int n
                                    @ '', expected '' @ dec_int drlen)), w2)
                    else
                      (case Zeros drlen of
                         Inl e \<Rightarrow> (Inl e, w2)
                       | Inr z \<Rightarrow>
                           (case RdWrDR z 0 w2 of
                              (Inl err, w3) \<Rightarrow> (Inl err, w3)
                            | (Inr tdo, w3) \<Rightarrow>
                                (bindR (bindR (Split tdo [drlen]) first_piece)
                                   (\<lambda>v. Inr (uint64 (int v))), w3))))))"

definition GetIDCode :: "'s world \<Rightarrow> IDCode \<times> 's world" where
  "GetIDCode w = (idcode (this w), w)"

text \<open>
  \<open>1 << dev.irlen\<close> in Go's 64-bit \<open>int\<close>: a negative count panics, a count of 64 or
  more gives 0, and the count 63 gives the least integer.
\<close>

definition shl1 :: "int \<Rightarrow> error + int" where
  "shl1 n =
     (if n < 0 then Inl (Panic NegativeShift)
      else if 64 \<le> n then Inr 0
      else Inr (sint (push_bit (nat n) (1 :: 64 word))))"

fun Join :: "string list \<Rightarrow> string \<Rightarrow> string" where
  "Join [] sep = []"
| "Join [x] sep = x"
| "Join (x # y # ys) sep = x @ sep @ Join (y # ys) sep"

text \<open>
  The loop of \<open>Survey\<close>: \<open>for ir := 0; ir < (1 << dev.irlen); ir++\<close>, with the slice
  \<open>s\<close> of the lines so far. The bound is computed before every iteration, as in the
  source. A failed write and a failed probe append their line and go on with the
  next value.
\<close>

function survey_loop ::
  "int \<Rightarrow> string list \<Rightarrow> 's world \<Rightarrow> (error + string list) \<times> 's world" where
  "survey_loop ir s w =
     (case shl1 (irlen (this w)) of
        Inl e \<Rightarrow> (Inl e, w)
      | Inr lim \<Rightarrow>
          if \<not> ir < lim then (Inr s, w)
          else
            (case FromUint (uint64 ir) (irlen (this w)) of
               Inl e \<Rightarrow> (Inl e, w)
             | Inr b \<Rightarrow>
                 (case WrIR b w of
                    (Inl err, w1) \<Rightarrow>
                      (case err of
                         Panic p \<Rightarrow> (Inl err, w1)
                       | _ \<Rightarrow> survey_loop (ir + 1)
                                (s @ [''ir '' @ dec_int ir @ '' can't write ir'']) w1)
                  | (Inr _, w1) \<Rightarrow>
                      (case call_drv (drLength (chain (this w1))) w1 of
                         (Inl err, w2) \<Rightarrow>
                           survey_loop (ir + 1)
                             (s @ [''ir '' @ dec_int ir @ '' drlen unknown'']) w2
                       | (Inr n, w2) \<Rightarrow>
                           survey_loop (ir + 1)
                             (s @ [''ir '' @ dec_int ir @ '' drlen ''
                                   @ dec_int (sub64 (sub64 n (devsAfter (this w2)))
                                                (devsBefore (this w2)))])
                             w2))))"
  by pat_completeness auto
termination
proof (relation "measure (\<lambda>(ir, s, w).
         nat ((case shl1 (irlen (this w)) of Inl e \<Rightarrow> 0 | Inr lim \<Rightarrow> lim) - ir))", goal_cases)
  case 1
  show ?case by simp
next
  case (2 ir s w lim b x1 w1 err msg)
  then show ?case
    by (auto simp: WrIR_def call_drv_def split: sum.splits prod.splits)
next
  case (3 ir s w lim b x1 w1 err msg)
  then show ?case
    by (auto simp: WrIR_def call_drv_def split: sum.splits prod.splits)
next
  case (4 ir s w lim b x1 w1 u x2 w2 err)
  then show ?case
    by (auto simp: WrIR_def call_drv_def split: sum.splits prod.splits)
next
  case (5 ir s w lim b x1 w1 u x2 w2 n)
  then show ?case
    by (auto simp: WrIR_def call_drv_def split: sum.splits prod.splits)
qed

definition Survey :: "'s world \<Rightarrow> (error + string) \<times> 's world" where
  "Survey w =
     (case survey_loop 0 [] w of
        (Inl e, w') \<Rightarrow> (Inl e, w')
      | (Inr s, w') \<Rightarrow> (Inr (Join s [CHR 0x0A]), w'))"

section \<open>The specification's words\<close>

text \<open>
  The chain-wide sequence of sections 4.3 and 4.4, \<open>ones(before) ++ bits ++ ones(after)\<close>,
  and the capture with \<open>before\<close> bits removed from its head and \<open>after\<close> bits removed
  from its tail.
\<close>

definition padded :: "int \<Rightarrow> BitString \<Rightarrow> int \<Rightarrow> BitString" where
  "padded before bits after = replicate (nat before) True @ bits @ replicate (nat after) True"

definition stripped :: "int \<Rightarrow> int \<Rightarrow> BitString \<Rightarrow> BitString" where
  "stripped before after tdo = rev (drop (nat after) (rev (drop (nat before) tdo)))"

text \<open>
  The survey of section 4.5, one instruction register value at a time: write the
  value, query the current length of the data register, and give one report line,
  which is an error line if either step fails. \<open>survey_spec\<close> does this for the
  values of a list in order and collects the lines; a panic alone stops it.
\<close>

definition survey_value :: "int \<Rightarrow> 's world \<Rightarrow> (error + string) \<times> 's world" where
  "survey_value v w =
     (case FromUint (nat v) (irlen (this w)) of
        Inl e \<Rightarrow> (Inl e, w)
      | Inr b \<Rightarrow>
          (case WrIR b w of
             (Inl (Panic p), w1) \<Rightarrow> (Inl (Panic p), w1)
           | (Inl _, w1) \<Rightarrow> (Inr (''ir '' @ dec_int v @ '' can't write ir''), w1)
           | (Inr _, w1) \<Rightarrow>
               (case GetDRLength w1 of
                  (Inl _, w2) \<Rightarrow> (Inr (''ir '' @ dec_int v @ '' drlen unknown''), w2)
                | (Inr m, w2) \<Rightarrow> (Inr (''ir '' @ dec_int v @ '' drlen '' @ dec_int m), w2))))"

fun survey_spec :: "int list \<Rightarrow> 's world \<Rightarrow> (error + string list) \<times> 's world" where
  "survey_spec [] w = (Inr [], w)"
| "survey_spec (v # vs) w =
     (case survey_value v w of
        (Inl e, w1) \<Rightarrow> (Inl e, w1)
      | (Inr line, w1) \<Rightarrow>
          (case survey_spec vs w1 of
             (Inl e, w2) \<Rightarrow> (Inl e, w2)
           | (Inr ls, w2) \<Rightarrow> (Inr (line # ls), w2)))"

section \<open>A stub driver\<close>

text \<open>
  The stub of the closed instances below records every scan and every probe in its
  state. It fails the instruction register scans chosen by \<open>failIR\<close> and answers the
  others, when a capture is requested, with \<open>capIR\<close> and \<open>capDR\<close> of the chain-wide
  input; with the identity it is a loopback. Its chain reports the fixed outcome
  \<open>len\<close> for the length probe.
\<close>

datatype scan = IRScan BitString bool | DRScan BitString nat bool | DRProbe

definition stub_drv ::
  "(BitString \<Rightarrow> bool) \<Rightarrow> (BitString \<Rightarrow> BitString) \<Rightarrow> (BitString \<Rightarrow> BitString)
   \<Rightarrow> scan list Driver" where
  "stub_drv failIR capIR capDR =
     \<lparr> ScanIR = (\<lambda>tdi rd h.
         (if failIR tdi then Inl ''scan failed''
          else Inr (if rd then Some (capIR tdi) else None), h @ [IRScan tdi rd])),
       ScanDR = (\<lambda>tdi idle rd h.
         (Inr (if rd then Some (capDR tdi) else None), h @ [DRScan tdi idle rd])) \<rparr>"

definition stub_chain ::
  "DeviceInfo list \<Rightarrow> scan list Driver \<Rightarrow> string + int \<Rightarrow> scan list Chain" where
  "stub_chain ci d len = \<lparr> info = ci, chain_drv = d, drLength = (\<lambda>h. (len, h @ [DRProbe])) \<rparr>"

text \<open>The chain of the scenario of section 8: device 0 with 5, device 1 with 4 bits.\<close>

definition chain2 :: "DeviceInfo list" where
  "chain2 = [\<lparr> Name = ''dev0'', ID = 0, IRLength = 5 \<rparr>, \<lparr> Name = ''dev1'', ID = 0, IRLength = 4 \<rparr>]"

text \<open>
  The device of a closed instance: what \<open>NewDevice\<close> builds at a position of the chain
  (and an empty device where \<open>NewDevice\<close> panics).
\<close>

definition device_at :: "'s Chain \<Rightarrow> int \<Rightarrow> 's Device" where
  "device_at ch i =
     (case NewDevice ch i of
        Inr d \<Rightarrow> d
      | Inl e \<Rightarrow> \<lparr> idx = i, chain = ch, drv = chain_drv ch, name = [], idcode = 0, irlen = 0,
                   irlenBefore = 0, irlenAfter = 0, devsBefore = 0, devsAfter = 0 \<rparr>)"

text \<open>The loopback stub, and the worlds of the two devices of the scenario's chain.\<close>

definition loopback :: "scan list Driver" where
  "loopback = stub_drv (\<lambda>b. False) (\<lambda>b. b) (\<lambda>b. b)"

definition world2 :: "int \<Rightarrow> scan list world" where
  "world2 i = \<lparr> this = device_at (stub_chain chain2 loopback (Inr 2)) i, hw = [] \<rparr>"

text \<open>
  Worlds of device 1 of that chain on a stub whose instruction register scans all
  fail, and on a chain whose length probe fails.
\<close>

definition world_ir_fails :: "scan list world" where
  "world_ir_fails =
     \<lparr> this = device_at (stub_chain chain2 (stub_drv (\<lambda>b. True) (\<lambda>b. b) (\<lambda>b. b)) (Inr 2)) 1,
       hw = [] \<rparr>"

definition world_probe_fails :: "scan list world" where
  "world_probe_fails =
     \<lparr> this = device_at (stub_chain chain2 loopback (Inl ''probe failed'')) 1, hw = [] \<rparr>"

text \<open>
  A world of device 1 whose chain reports a total data register length of 9 and
  whose driver captures the complement of the data register input, and one whose
  driver captures an instruction register ending in 01.
\<close>

definition world_check :: "scan list world" where
  "world_check =
     \<lparr> this = device_at
         (stub_chain chain2 (stub_drv (\<lambda>b. False) (\<lambda>b. b) (map Not)) (Inr 9)) 1,
       hw = [] \<rparr>"


text \<open>
  A one-device chain with a 2-bit instruction register whose driver fails the write
  of the value 2 (bits 10), and a one-device chain with a 63-bit instruction
  register; both report a total data register length of 1.
\<close>

definition world_survey :: "scan list world" where
  "world_survey =
     \<lparr> this = device_at
         (stub_chain [\<lparr> Name = ''tap'', ID = 0, IRLength = 2 \<rparr>]
            (stub_drv (\<lambda>b. b = [True, False]) (\<lambda>b. b) (\<lambda>b. b)) (Inr 1)) 0,
       hw = [] \<rparr>"

definition world_wide :: "scan list world" where
  "world_wide =
     \<lparr> this = device_at
         (stub_chain [\<lparr> Name = ''tap'', ID = 0, IRLength = 63 \<rparr>] loopback (Inr 1)) 0,
       hw = [] \<rparr>"

text \<open>
  Worlds of device 1 of the two-device chain for the limits of \<open>CheckDR\<close> and
  \<open>GetDRLength\<close>: a chain that reports a total length of 66 on the complementing
  driver, a chain that reports 0, and a chain that reports the least 64-bit integer.
\<close>

definition world_dr65 :: "scan list world" where
  "world_dr65 =
     \<lparr> this = device_at
         (stub_chain chain2 (stub_drv (\<lambda>b. False) (\<lambda>b. b) (map Not)) (Inr 66)) 1,
       hw = [] \<rparr>"

definition world_zero :: "scan list world" where
  "world_zero = \<lparr> this = device_at (stub_chain chain2 loopback (Inr 0)) 1, hw = [] \<rparr>"

definition world_least :: "scan list world" where
  "world_least =
     \<lparr> this = device_at (stub_chain chain2 loopback (Inr (- 9223372036854775808))) 1,
       hw = [] \<rparr>"

section \<open>Bit string facts\<close>

lemma bindR_simps [simp]: "bindR (Inl e) f = Inl e" "bindR (Inr x) f = f x"
  by (simp_all add: bindR_def)

lemma pad_eq:
  "0 \<le> a \<Longrightarrow> 0 \<le> b \<Longrightarrow> bindR (Ones a) (\<lambda>x. Tail1 (Tail x wr) b) = Inr (padded a wr b)"
  by (simp add: bindR_def Ones_def Tail1_def Tail_def padded_def)

lemma stripped_take: "stripped a b tdo = take (length tdo - nat a - nat b) (drop (nat a) tdo)"
  by (simp add: stripped_def drop_rev)

lemma strip_eq:
  "0 \<le> a \<Longrightarrow> 0 \<le> b \<Longrightarrow>
   bindR (DropHead tdo a) (\<lambda>t. DropTail t b) =
     (if a + b \<le> int (length tdo) then Inr (stripped a b tdo) else Inl (Panic RangeError))"
  by (auto simp: bindR_def DropHead_def DropTail_def stripped_take)

lemma length_stripped: "length (stripped a b tdo) = length tdo - nat a - nat b"
  by (simp add: stripped_take)

lemma stripped_padded: "stripped a b (padded a bits b) = bits"
  by (simp add: stripped_take padded_def)

lemma length_padded: "length (padded a bits b) = nat a + length bits + nat b"
  by (simp add: padded_def)

lemma call_drv_this: "this (snd (call_drv f w)) = this w"
  by (simp add: call_drv_def split: prod.splits sum.splits)

section \<open>Arithmetic in 64 bits\<close>

lemma wrap64_id: "- (2 ^ 63) \<le> i \<Longrightarrow> i < 2 ^ 63 \<Longrightarrow> wrap64 i = i"
  by (simp add: wrap64_def)

lemma sub64_sub64: "sub64 (sub64 n a) b = wrap64 (n - b - a)"
proof -
  have "((n - a + 2 ^ 63) mod 2 ^ 64 - b) mod 2 ^ 64 = (n - a + 2 ^ 63 - b) mod (2 ^ 64 :: int)"
    by (rule mod_diff_left_eq)
  then show ?thesis
    by (simp add: sub64_def wrap64_def algebra_simps)
qed

lemma bits_val_snoc: "bits_val (b @ [x]) = 2 * bits_val b + (if x then 1 else 0)"
  by (simp add: bits_val_def)

lemma bits_val_less: "bits_val b < 2 ^ length b"
proof (induction b rule: rev_induct)
  case Nil
  show ?case
    by (simp add: bits_val_def)
next
  case (snoc x b)
  then show ?case
    by (simp add: bits_val_snoc)
qed

lemma uint64_int: "uint64 (int v) = v mod 2 ^ 64"
proof -
  have "int v mod 2 ^ 64 = int (v mod 2 ^ 64)"
    by (simp add: zmod_int)
  then show ?thesis
    by (simp only: uint64_def nat_int)
qed

lemma uint64_bits_val:
  assumes "length b \<le> 64"
  shows "uint64 (int (bits_val b)) = bits_val b"
proof -
  have "bits_val b < 2 ^ length b"
    by (rule bits_val_less)
  also have "\<dots> \<le> (2::nat) ^ 64"
    using assms by (intro power_increasing) auto
  finally have "int (bits_val b) < 2 ^ 64"
    by (simp only: of_nat_less_numeral_power_cancel_iff)
  then show ?thesis
    by (simp add: uint64_def)
qed

section \<open>The scans behind the operations\<close>

lemma WrIR_scan:
  assumes "0 \<le> irlenBefore (this w)" and "0 \<le> irlenAfter (this w)"
  shows "WrIR bits w =
     (case ScanIR (drv (this w)) (padded (irlenBefore (this w)) bits (irlenAfter (this w)))
             False (hw w) of
        (Inl msg, h) \<Rightarrow> (Inl (TransportError msg), w\<lparr>hw := h\<rparr>)
      | (Inr tdo, h) \<Rightarrow> (Inr (), w\<lparr>hw := h\<rparr>))"
  using assms by (simp add: WrIR_def pad_eq call_drv_def split: prod.splits sum.splits)

lemma RdWrIR_scan:
  assumes "0 \<le> irlenBefore (this w)" and "0 \<le> irlenAfter (this w)"
  shows "RdWrIR bits w =
     (case ScanIR (drv (this w)) (padded (irlenBefore (this w)) bits (irlenAfter (this w)))
             True (hw w) of
        (Inl msg, h) \<Rightarrow> (Inl (TransportError msg), w\<lparr>hw := h\<rparr>)
      | (Inr None, h) \<Rightarrow> (Inl (Panic NilPointer), w\<lparr>hw := h\<rparr>)
      | (Inr (Some tdo), h) \<Rightarrow>
          (if irlenBefore (this w) + irlenAfter (this w) \<le> int (length tdo)
           then Inr (stripped (irlenBefore (this w)) (irlenAfter (this w)) tdo)
           else Inl (Panic RangeError), w\<lparr>hw := h\<rparr>))"
  using assms
  by (simp add: RdWrIR_def pad_eq strip_eq call_drv_def
      split: prod.splits sum.splits option.splits)

lemma WrDR_scan:
  assumes "0 \<le> devsBefore (this w)" and "0 \<le> devsAfter (this w)"
  shows "WrDR bits idle w =
     (case ScanDR (drv (this w)) (padded (devsBefore (this w)) bits (devsAfter (this w)))
             idle False (hw w) of
        (Inl msg, h) \<Rightarrow> (Inl (TransportError msg), w\<lparr>hw := h\<rparr>)
      | (Inr tdo, h) \<Rightarrow> (Inr (), w\<lparr>hw := h\<rparr>))"
  using assms by (simp add: WrDR_def pad_eq call_drv_def split: prod.splits sum.splits)

lemma RdWrDR_scan:
  assumes "0 \<le> devsBefore (this w)" and "0 \<le> devsAfter (this w)"
  shows "RdWrDR bits idle w =
     (case ScanDR (drv (this w)) (padded (devsBefore (this w)) bits (devsAfter (this w)))
             idle True (hw w) of
        (Inl msg, h) \<Rightarrow> (Inl (TransportError msg), w\<lparr>hw := h\<rparr>)
      | (Inr None, h) \<Rightarrow> (Inl (Panic NilPointer), w\<lparr>hw := h\<rparr>)
      | (Inr (Some tdo), h) \<Rightarrow>
          (if devsBefore (this w) + devsAfter (this w) \<le> int (length tdo)
           then Inr (stripped (devsBefore (this w)) (devsAfter (this w)) tdo)
           else Inl (Panic RangeError), w\<lparr>hw := h\<rparr>))"
  using assms
  by (simp add: RdWrDR_def pad_eq strip_eq call_drv_def
      split: prod.splits sum.splits option.splits)

lemma GetDRLength_scan:
  "GetDRLength w =
     (case drLength (chain (this w)) (hw w) of
        (Inl msg, h) \<Rightarrow> (Inl (TransportError msg), w\<lparr>hw := h\<rparr>)
      | (Inr n, h) \<Rightarrow>
          (Inr (wrap64 (n - devsBefore (this w) - devsAfter (this w))), w\<lparr>hw := h\<rparr>))"
  by (simp add: GetDRLength_def call_drv_def sub64_sub64 split: prod.splits sum.splits)

lemma Split_one:
  "bindR (Split b [n]) first_piece =
     (if int (length b) = n then Inr (bits_val b) else Inl (Panic RangeError))"
  by (auto simp: Split_def bindR_def first_piece_def)

section \<open>Writing the instruction register\<close>

text \<open>
  C1: for a device with the padding counts \<open>irlenBefore\<close> and \<open>irlenAfter\<close> and for
  every bit sequence, \<open>WrIR\<close> is one instruction register scan of the driver, on the
  chain-wide sequence \<open>ones(irlenBefore) ++ bits ++ ones(irlenAfter)\<close> and with no
  capture requested; its outcome is the scan's error, or success. In the scenario of
  the two-device chain, the closed instance after the theorem, device 1 sends the
  nine bits 11111 1010 for the value 1010.
\<close>

theorem WrIR_sends_padded:
  assumes "0 \<le> irlenBefore (this w)" and "0 \<le> irlenAfter (this w)"
  shows "WrIR bits w =
     (case ScanIR (drv (this w)) (padded (irlenBefore (this w)) bits (irlenAfter (this w)))
             False (hw w) of
        (Inl msg, h) \<Rightarrow> (Inl (TransportError msg), w\<lparr>hw := h\<rparr>)
      | (Inr tdo, h) \<Rightarrow> (Inr (), w\<lparr>hw := h\<rparr>))"
  using assms by (rule WrIR_scan)

theorem WrIR_scenario:
  "NewDevice (stub_chain chain2 loopback (Inr 2)) 1 = Inr (this (world2 1))
   \<and> irlen (this (world2 1)) = 4
   \<and> irlenBefore (this (world2 1)) = 5
   \<and> irlenAfter (this (world2 1)) = 0
   \<and> FromUint 10 4 = Inr [True, False, True, False]
   \<and> fst (WrIR [True, False, True, False] (world2 1)) = Inr ()
   \<and> hw (snd (WrIR [True, False, True, False] (world2 1))) =
       [IRScan [True, True, True, True, True, True, False, True, False] False]"
proof -
  have d: "NewDevice (stub_chain chain2 loopback (Inr 2)) 1 = Inr (this (world2 1))"
    by (simp add: world2_def device_at_def NewDevice_def stub_chain_def chain2_def)
  have l: "irlen (this (world2 1)) = 4"
    and b: "irlenBefore (this (world2 1)) = 5"
    and a: "irlenAfter (this (world2 1)) = 0"
    by (simp_all add: world2_def device_at_def NewDevice_def stub_chain_def chain2_def
        irLengthBefore_def irLengthAfter_def)
  have f: "FromUint 10 4 = Inr [True, False, True, False]"
    by code_simp
  have sent: "WrIR [True, False, True, False] (world2 1) =
     (case ScanIR (drv (this (world2 1))) (padded 5 [True, False, True, False] 0) False
             (hw (world2 1)) of
        (Inl msg, h) \<Rightarrow> (Inl (TransportError msg), (world2 1)\<lparr>hw := h\<rparr>)
      | (Inr tdo, h) \<Rightarrow> (Inr (), (world2 1)\<lparr>hw := h\<rparr>))"
    using WrIR_sends_padded [of "world2 1" "[True, False, True, False]"] by (simp add: a b)
  have scan: "ScanIR (drv (this (world2 1))) (padded 5 [True, False, True, False] 0) False
      (hw (world2 1)) =
     (Inr None, [IRScan [True, True, True, True, True, True, False, True, False] False])"
    by code_simp
  show ?thesis
    by (simp add: d l b a f sent scan)
qed


section \<open>Reading and writing the registers\<close>

text \<open>
  C2: for a device with the bypass counts \<open>devsBefore\<close> and \<open>devsAfter\<close> and for every
  bit sequence and idle count, \<open>WrDR\<close> and \<open>RdWrDR\<close> are one data register scan of the
  driver on \<open>ones(devsBefore) ++ bits ++ ones(devsAfter)\<close> with the caller's idle
  count, without and with capture; \<open>RdWrDR\<close> returns the capture with \<open>devsBefore\<close>
  bits removed from its head and \<open>devsAfter\<close> bits removed from its tail (a capture
  too short for that is a range error, no capture at all a nil pointer).
\<close>

theorem WrDR_RdWrDR_padded:
  assumes "0 \<le> devsBefore (this w)" and "0 \<le> devsAfter (this w)"
  shows "WrDR bits idle w =
     (case ScanDR (drv (this w)) (padded (devsBefore (this w)) bits (devsAfter (this w)))
             idle False (hw w) of
        (Inl msg, h) \<Rightarrow> (Inl (TransportError msg), w\<lparr>hw := h\<rparr>)
      | (Inr tdo, h) \<Rightarrow> (Inr (), w\<lparr>hw := h\<rparr>))
   \<and> RdWrDR bits idle w =
     (case ScanDR (drv (this w)) (padded (devsBefore (this w)) bits (devsAfter (this w)))
             idle True (hw w) of
        (Inl msg, h) \<Rightarrow> (Inl (TransportError msg), w\<lparr>hw := h\<rparr>)
      | (Inr None, h) \<Rightarrow> (Inl (Panic NilPointer), w\<lparr>hw := h\<rparr>)
      | (Inr (Some tdo), h) \<Rightarrow>
          (if devsBefore (this w) + devsAfter (this w) \<le> int (length tdo)
           then Inr (stripped (devsBefore (this w)) (devsAfter (this w)) tdo)
           else Inl (Panic RangeError), w\<lparr>hw := h\<rparr>))"
  using assms by (intro conjI WrDR_scan RdWrDR_scan)

theorem WrDR_RdWrDR_instance:
  "devsBefore (this (world2 0)) = 0
   \<and> devsAfter (this (world2 0)) = 1
   \<and> fst (WrDR [True, False, False] 7 (world2 0)) = Inr ()
   \<and> hw (snd (WrDR [True, False, False] 7 (world2 0))) =
       [DRScan [True, False, False, True] 7 False]
   \<and> fst (RdWrDR [True, False, False] 7 (world2 0)) = Inr [True, False, False]
   \<and> hw (snd (RdWrDR [True, False, False] 7 (world2 0))) =
       [DRScan [True, False, False, True] 7 True]"
proof -
  have b: "devsBefore (this (world2 0)) = 0" and a: "devsAfter (this (world2 0)) = 1"
    by (simp_all add: world2_def device_at_def NewDevice_def stub_chain_def chain2_def)
  have wr: "ScanDR (drv (this (world2 0))) (padded 0 [True, False, False] 1) 7 False
      (hw (world2 0)) = (Inr None, [DRScan [True, False, False, True] 7 False])"
    by code_simp
  have rd: "ScanDR (drv (this (world2 0))) (padded 0 [True, False, False] 1) 7 True
      (hw (world2 0)) =
      (Inr (Some [True, False, False, True]), [DRScan [True, False, False, True] 7 True])"
    by code_simp
  have st: "stripped 0 1 [True, False, False, True] = [True, False, False]"
    by code_simp
  show ?thesis
    using WrDR_RdWrDR_padded [of "world2 0" "[True, False, False]" 7]
    by (simp add: a b wr rd st)
qed

text \<open>
  C3: \<open>RdWrIR\<close> is one instruction register scan on the chain-wide sequence of
  \<open>WrIR\<close>, with capture requested, and returns the capture with \<open>irlenBefore\<close> bits
  removed from its head and \<open>irlenAfter\<close> bits removed from its tail. When the bits
  written are \<open>irlen\<close> bits and the capture is as long as the sequence shifted in,
  the result has exactly \<open>irlen\<close> bits; when the driver echoes the chain-wide input,
  the result is the bits that were written.
\<close>

theorem RdWrIR_strips:
  assumes "0 \<le> irlenBefore (this w)" and "0 \<le> irlenAfter (this w)"
  shows "RdWrIR bits w =
     (case ScanIR (drv (this w)) (padded (irlenBefore (this w)) bits (irlenAfter (this w)))
             True (hw w) of
        (Inl msg, h) \<Rightarrow> (Inl (TransportError msg), w\<lparr>hw := h\<rparr>)
      | (Inr None, h) \<Rightarrow> (Inl (Panic NilPointer), w\<lparr>hw := h\<rparr>)
      | (Inr (Some tdo), h) \<Rightarrow>
          (if irlenBefore (this w) + irlenAfter (this w) \<le> int (length tdo)
           then Inr (stripped (irlenBefore (this w)) (irlenAfter (this w)) tdo)
           else Inl (Panic RangeError), w\<lparr>hw := h\<rparr>))
   \<and> (\<forall>tdo h.
         ScanIR (drv (this w)) (padded (irlenBefore (this w)) bits (irlenAfter (this w)))
           True (hw w) = (Inr (Some tdo), h)
         \<and> length tdo = length (padded (irlenBefore (this w)) bits (irlenAfter (this w)))
         \<and> int (length bits) = irlen (this w)
         \<longrightarrow> RdWrIR bits w =
               (Inr (stripped (irlenBefore (this w)) (irlenAfter (this w)) tdo), w\<lparr>hw := h\<rparr>)
             \<and> int (length (stripped (irlenBefore (this w)) (irlenAfter (this w)) tdo)) =
               irlen (this w))
   \<and> (\<forall>h.
         ScanIR (drv (this w)) (padded (irlenBefore (this w)) bits (irlenAfter (this w)))
           True (hw w) =
         (Inr (Some (padded (irlenBefore (this w)) bits (irlenAfter (this w)))), h)
         \<longrightarrow> RdWrIR bits w = (Inr bits, w\<lparr>hw := h\<rparr>))"
proof -
  let ?tdi = "padded (irlenBefore (this w)) bits (irlenAfter (this w))"
  have eq: "RdWrIR bits w =
     (case ScanIR (drv (this w)) ?tdi True (hw w) of
        (Inl msg, h) \<Rightarrow> (Inl (TransportError msg), w\<lparr>hw := h\<rparr>)
      | (Inr None, h) \<Rightarrow> (Inl (Panic NilPointer), w\<lparr>hw := h\<rparr>)
      | (Inr (Some tdo), h) \<Rightarrow>
          (if irlenBefore (this w) + irlenAfter (this w) \<le> int (length tdo)
           then Inr (stripped (irlenBefore (this w)) (irlenAfter (this w)) tdo)
           else Inl (Panic RangeError), w\<lparr>hw := h\<rparr>))"
    using assms by (rule RdWrIR_scan)
  have len: "RdWrIR bits w =
               (Inr (stripped (irlenBefore (this w)) (irlenAfter (this w)) tdo), w\<lparr>hw := h\<rparr>)
             \<and> int (length (stripped (irlenBefore (this w)) (irlenAfter (this w)) tdo)) =
               irlen (this w)"
    if "ScanIR (drv (this w)) ?tdi True (hw w) = (Inr (Some tdo), h)"
      and "length tdo = length ?tdi" and "int (length bits) = irlen (this w)" for tdo h
    using that assms by (simp add: eq length_stripped length_padded)
  have echo: "RdWrIR bits w = (Inr bits, w\<lparr>hw := h\<rparr>)"
    if "ScanIR (drv (this w)) ?tdi True (hw w) = (Inr (Some ?tdi), h)" for h
    using that assms by (simp add: eq stripped_padded length_padded)
  show ?thesis
    using eq len echo by blast
qed

theorem RdWrIR_loopback:
  "irlen (this (world2 1)) = 4
   \<and> irlenBefore (this (world2 1)) = 5
   \<and> irlenAfter (this (world2 1)) = 0
   \<and> ScanIR (drv (this (world2 1))) (padded 5 [False, True, True, False] 0) True
       (hw (world2 1)) =
     (Inr (Some (padded 5 [False, True, True, False] 0)),
      [IRScan [True, True, True, True, True, False, True, True, False] True])
   \<and> fst (RdWrIR [False, True, True, False] (world2 1)) = Inr [False, True, True, False]
   \<and> hw (snd (RdWrIR [False, True, True, False] (world2 1))) =
       [IRScan [True, True, True, True, True, False, True, True, False] True]"
proof -
  have l: "irlen (this (world2 1)) = 4"
    and b: "irlenBefore (this (world2 1)) = 5"
    and a: "irlenAfter (this (world2 1)) = 0"
    by (simp_all add: world2_def device_at_def NewDevice_def stub_chain_def chain2_def
        irLengthBefore_def irLengthAfter_def)
  have scan: "ScanIR (drv (this (world2 1))) (padded 5 [False, True, True, False] 0) True
       (hw (world2 1)) =
     (Inr (Some (padded 5 [False, True, True, False] 0)),
      [IRScan [True, True, True, True, True, False, True, True, False] True])"
    by code_simp
  have nb: "0 \<le> irlenBefore (this (world2 1))" and na: "0 \<le> irlenAfter (this (world2 1))"
    by (simp_all add: a b)
  have scan': "ScanIR (drv (this (world2 1)))
       (padded (irlenBefore (this (world2 1))) [False, True, True, False]
          (irlenAfter (this (world2 1)))) True (hw (world2 1)) =
     (Inr (Some (padded (irlenBefore (this (world2 1))) [False, True, True, False]
          (irlenAfter (this (world2 1))))),
      [IRScan [True, True, True, True, True, False, True, True, False] True])"
    by (simp only: a b scan)
  have "RdWrIR [False, True, True, False] (world2 1) =
      (Inr [False, True, True, False],
       (world2 1)\<lparr>hw := [IRScan [True, True, True, True, True, False, True, True, False] True]\<rparr>)"
    using RdWrIR_strips [OF nb na, of "[False, True, True, False]"] scan' by blast
  then show ?thesis
    by (simp add: l b a scan)
qed


section \<open>The length of the data register\<close>

text \<open>
  C6: \<open>GetDRLength\<close> probes the chain's total data register length once. When the
  probe succeeds it returns that length minus \<open>devsBefore\<close> minus \<open>devsAfter\<close>, computed
  in Go's 64-bit \<open>int\<close>: the difference itself whenever it is a 64-bit integer, as it
  is for a length that is not negative and the counts of a device of the chain. When
  the probe fails it fails with the probe's transport error and returns no length.
\<close>

theorem GetDRLength_probe:
  "GetDRLength w =
     (case drLength (chain (this w)) (hw w) of
        (Inl msg, h) \<Rightarrow> (Inl (TransportError msg), w\<lparr>hw := h\<rparr>)
      | (Inr n, h) \<Rightarrow>
          (Inr (wrap64 (n - devsBefore (this w) - devsAfter (this w))), w\<lparr>hw := h\<rparr>))
   \<and> (\<forall>n h. drLength (chain (this w)) (hw w) = (Inr n, h)
           \<and> - (2 ^ 63) \<le> n - devsBefore (this w) - devsAfter (this w)
           \<and> n - devsBefore (this w) - devsAfter (this w) < 2 ^ 63
         \<longrightarrow> GetDRLength w =
               (Inr (n - devsBefore (this w) - devsAfter (this w)), w\<lparr>hw := h\<rparr>))"
  by (simp add: GetDRLength_scan wrap64_id)

theorem GetDRLength_instance:
  "drLength (chain (this world_check)) (hw world_check) = (Inr 9, [DRProbe])
   \<and> devsBefore (this world_check) = 1
   \<and> devsAfter (this world_check) = 0
   \<and> fst (GetDRLength world_check) = Inr 8
   \<and> hw (snd (GetDRLength world_check)) = [DRProbe]
   \<and> fst (GetDRLength world_probe_fails) = Inl (TransportError ''probe failed'')
   \<and> fst (GetDRLength world_least) = Inr 9223372036854775807"
proof -
  have p: "drLength (chain (this world_check)) (hw world_check) = (Inr 9, [DRProbe])"
    by code_simp
  have b: "devsBefore (this world_check) = 1" and a: "devsAfter (this world_check) = 0"
    by code_simp+
  have lo: "- (2 ^ 63) \<le> 9 - devsBefore (this world_check) - devsAfter (this world_check)"
    and hi: "9 - devsBefore (this world_check) - devsAfter (this world_check) < 2 ^ 63"
    by (simp_all add: a b)
  have "GetDRLength world_check =
      (Inr (9 - devsBefore (this world_check) - devsAfter (this world_check)),
       world_check\<lparr>hw := [DRProbe]\<rparr>)"
    using GetDRLength_probe [of world_check] p lo hi by blast
  then have g: "fst (GetDRLength world_check) = Inr 8" "hw (snd (GetDRLength world_check)) = [DRProbe]"
    by (simp_all add: a b)
  have f: "fst (GetDRLength world_probe_fails) = Inl (TransportError ''probe failed'')"
    by code_simp
  have l: "fst (GetDRLength world_least) = Inr 9223372036854775807"
    by code_simp
  show ?thesis
    using p b a g f l by (intro conjI)
qed

section \<open>Building a device\<close>

text \<open>
  The devices of a chain whose instruction register lengths are not negative have
  the non-negative counts that the theorems of this file ask for, and their three
  instruction register counts add up to the total length of the chain.
\<close>

lemma NewDevice_paddings:
  assumes "\<forall>d \<in> set (info ch). 0 \<le> IRLength d" and "NewDevice ch i = Inr dev"
  shows "0 \<le> irlen dev \<and> 0 \<le> irlenBefore dev \<and> 0 \<le> irlenAfter dev
       \<and> 0 \<le> devsBefore dev \<and> 0 \<le> devsAfter dev
       \<and> irlenBefore dev + irlen dev + irlenAfter dev = sum_list (map IRLength (info ch))"
proof -
  from assms(2) have i: "0 \<le> i" "nat i < length (info ch)"
    by (auto simp: NewDevice_def split: if_splits)
  have b: "0 \<le> sum_list (map IRLength (take (nat i) (info ch)))"
    using assms(1) by (intro sum_list_nonneg) (auto dest: in_set_takeD)
  have a: "0 \<le> sum_list (map IRLength (drop (nat i + 1) (info ch)))"
    using assms(1) by (intro sum_list_nonneg) (auto dest: in_set_dropD)
  have "info ch = take (nat i) (info ch) @ info ch ! nat i # drop (Suc (nat i)) (info ch)"
    using i(2) by (rule id_take_nth_drop)
  then have "sum_list (map IRLength (info ch)) =
      sum_list (map IRLength (take (nat i) (info ch))) + IRLength (info ch ! nat i)
      + sum_list (map IRLength (drop (nat i + 1) (info ch)))"
    by (metis Suc_eq_plus1 add.assoc list.simps(9) map_append sum_list.Cons sum_list.append)
  then show ?thesis
    using assms i a b
    by (auto simp: NewDevice_def irLengthBefore_def irLengthAfter_def split: if_splits)
qed

text \<open>
  C7: for a chain of N devices and an index \<open>0 \<le> idx < N\<close>, \<open>NewDevice\<close> builds a
  device with \<open>devsBefore = idx\<close> and \<open>devsAfter = N - idx - 1\<close>, so that
  \<open>devsBefore + 1 + devsAfter\<close> is the number N of devices of the chain.
\<close>

theorem NewDevice_counts:
  assumes "0 \<le> i" and "i < int (length (info ch))"
  shows "\<exists>d. NewDevice ch i = Inr d
           \<and> devsBefore d = i
           \<and> devsAfter d = int (length (info ch)) - i - 1
           \<and> devsBefore d + 1 + devsAfter d = int (length (info ch))"
  using assms by (simp add: NewDevice_def)

theorem NewDevice_counts_chain2:
  "(0::int) \<le> 1 \<and> 1 < int (length (info (stub_chain chain2 loopback (Inr 2))))
   \<and> NewDevice (stub_chain chain2 loopback (Inr 2)) 1 = Inr (this (world2 1))
   \<and> devsBefore (this (world2 1)) = 1
   \<and> devsAfter (this (world2 1)) = 0
   \<and> devsBefore (this (world2 1)) + 1 + devsAfter (this (world2 1)) = 2"
proof -
  have r: "(0::int) \<le> 1" "1 < int (length (info (stub_chain chain2 loopback (Inr 2))))"
    by (simp_all add: stub_chain_def chain2_def)
  have d: "this (world2 1) = device_at (stub_chain chain2 loopback (Inr 2)) 1"
    by (simp add: world2_def)
  from NewDevice_counts [OF r]
  obtain dv where "NewDevice (stub_chain chain2 loopback (Inr 2)) 1 = Inr dv"
    and "devsBefore dv = 1"
    and "devsAfter dv = int (length (info (stub_chain chain2 loopback (Inr 2)))) - 1 - 1"
    by blast
  then show ?thesis
    using r by (simp add: d device_at_def stub_chain_def chain2_def)
qed

section \<open>Checking the data register\<close>

lemma CheckDR_WrIR_error:
  assumes "FromUint ir (irlen (this w)) = Inr b"
    and "WrIR b w = (Inl (TransportError msg), w1)"
  shows "CheckDR ir drlen w = (Inr 0, w1)"
  using assms by (simp add: CheckDR_def)

lemma CheckDR_probe_error:
  assumes "FromUint ir (irlen (this w)) = Inr b"
    and "WrIR b w = (Inr u, w1)"
    and "GetDRLength w1 = (Inl (TransportError msg), w2)"
  shows "CheckDR ir drlen w = (Inr 0, w2)"
  using assms by (simp add: CheckDR_def)

text \<open>
  C4 says that \<open>CheckDR\<close> fails with the transport error of its instruction register
  write or of its length probe. The code returns the value 0 and no error in both
  cases, as the two lemmas above show for every device; here it is run on device 1 of
  the two-device chain, once on a driver whose instruction register scan fails and
  once on a chain whose probe fails.
\<close>

theorem CheckDR_drops_transport_error:
  "fst (WrIR [True, False, True, False] world_ir_fails) = Inl (TransportError ''scan failed'')
   \<and> fst (CheckDR 10 32 world_ir_fails) = Inr 0
   \<and> fst (WrIR [True, False, True, False] world_probe_fails) = Inr ()
   \<and> fst (GetDRLength (snd (WrIR [True, False, True, False] world_probe_fails))) =
       Inl (TransportError ''probe failed'')
   \<and> fst (CheckDR 10 32 world_probe_fails) = Inr 0"
  by code_simp


lemma bits_val_ones: "bits_val (replicate n True) = 2 ^ n - 1"
proof (induction n)
  case 0
  show ?case
    by (simp add: bits_val_def)
next
  case (Suc n)
  have "replicate (Suc n) True = replicate n True @ [True]"
    by (simp add: replicate_append_same)
  then have "bits_val (replicate (Suc n) True) = 2 * bits_val (replicate n True) + 1"
    by (simp only: bits_val_snoc if_True)
  also have "\<dots> = 2 * (2 ^ n - 1) + 1"
    by (simp only: Suc.IH)
  also have "\<dots> = 2 ^ Suc n - 1"
  proof -
    have k: "2 * (k - 1) + 1 = 2 * k - 1" if "1 \<le> k" for k :: nat
      using that by arith
    have "(1::nat) \<le> 2 ^ n"
      by simp
    then have "2 * ((2::nat) ^ n - 1) + 1 = 2 * 2 ^ n - 1"
      by (rule k)
    then show ?thesis
      by simp
  qed
  finally show ?case .
qed

lemma CheckDR_mismatch:
  assumes "0 \<le> irlenBefore (this w)" and "0 \<le> irlenAfter (this w)"
    and "FromUint ir (irlen (this w)) = Inr irbits"
    and "ScanIR (drv (this w)) (padded (irlenBefore (this w)) irbits (irlenAfter (this w)))
           False (hw w) = (Inr x, h1)"
    and "drLength (chain (this w)) h1 = (Inr tot, h2)"
    and "wrap64 (tot - devsBefore (this w) - devsAfter (this w)) \<noteq> drlen"
  shows "CheckDR ir drlen w =
      (Inl (Errorf (''ir '' @ dec_nat ir @ '' dr length is ''
                    @ dec_int (wrap64 (tot - devsBefore (this w) - devsAfter (this w)))
                    @ '', expected '' @ dec_int drlen)), w\<lparr>hw := h2\<rparr>)"
proof -
  have wr: "WrIR irbits w = (Inr (), w\<lparr>hw := h1\<rparr>)"
    using assms(1,2,4) by (simp add: WrIR_scan)
  have len: "GetDRLength (w\<lparr>hw := h1\<rparr>) =
      (Inr (wrap64 (tot - devsBefore (this w) - devsAfter (this w))), w\<lparr>hw := h2\<rparr>)"
    using assms(5) by (simp add: GetDRLength_scan)
  show ?thesis
    using assms(3,6) by (simp add: CheckDR_def wr len)
qed

lemma CheckDR_match:
  assumes "0 \<le> irlenBefore (this w)" and "0 \<le> irlenAfter (this w)"
    and "0 \<le> devsBefore (this w)" and "0 \<le> devsAfter (this w)"
    and "FromUint ir (irlen (this w)) = Inr irbits"
    and "ScanIR (drv (this w)) (padded (irlenBefore (this w)) irbits (irlenAfter (this w)))
           False (hw w) = (Inr x, h1)"
    and "drLength (chain (this w)) h1 = (Inr tot, h2)"
    and "wrap64 (tot - devsBefore (this w) - devsAfter (this w)) = drlen" and "0 \<le> drlen"
  shows "CheckDR ir drlen w =
      (case ScanDR (drv (this w))
              (padded (devsBefore (this w)) (replicate (nat drlen) False)
                 (devsAfter (this w))) 0 True h2 of
         (Inl msg, h3) \<Rightarrow> (Inl (TransportError msg), w\<lparr>hw := h3\<rparr>)
       | (Inr None, h3) \<Rightarrow> (Inl (Panic NilPointer), w\<lparr>hw := h3\<rparr>)
       | (Inr (Some tdo), h3) \<Rightarrow>
           (if int (length tdo) = devsBefore (this w) + drlen + devsAfter (this w)
            then Inr (bits_val (stripped (devsBefore (this w)) (devsAfter (this w)) tdo)
                      mod 2 ^ 64)
            else Inl (Panic RangeError), w\<lparr>hw := h3\<rparr>))"
proof -
  let ?b = "devsBefore (this w)" and ?a = "devsAfter (this w)"
  have wr: "WrIR irbits w = (Inr (), w\<lparr>hw := h1\<rparr>)"
    using assms(1,2,6) by (simp add: WrIR_scan)
  have len: "GetDRLength (w\<lparr>hw := h1\<rparr>) = (Inr drlen, w\<lparr>hw := h2\<rparr>)"
    using assms(7,8) by (simp add: GetDRLength_scan)
  have rd: "RdWrDR (replicate (nat drlen) False) 0 (w\<lparr>hw := h2\<rparr>) =
    (case ScanDR (drv (this w)) (padded ?b (replicate (nat drlen) False) ?a) 0 True h2 of
       (Inl msg, h) \<Rightarrow> (Inl (TransportError msg), w\<lparr>hw := h\<rparr>)
     | (Inr None, h) \<Rightarrow> (Inl (Panic NilPointer), w\<lparr>hw := h\<rparr>)
     | (Inr (Some tdo), h) \<Rightarrow>
         (if ?b + ?a \<le> int (length tdo)
          then Inr (stripped ?b ?a tdo)
          else Inl (Panic RangeError), w\<lparr>hw := h\<rparr>))"
    using assms(3,4) by (simp add: RdWrDR_scan split: prod.splits sum.splits option.splits)
  show ?thesis
    using assms(3,4,5,9)
    by (auto simp: CheckDR_def wr len Zeros_def rd Split_one length_stripped uint64_int
        split: prod.splits sum.splits option.splits)
qed

text \<open>
  C5, for an instruction that fits the instruction register and an expected length
  from 0 to 64: let the instruction register write succeed and the length probe
  succeed with the total \<open>tot\<close>, so that the device's observed length is
  \<open>tot - devsBefore - devsAfter\<close> in Go's 64-bit \<open>int\<close>. If that differs from \<open>drlen\<close>,
  \<open>CheckDR\<close> fails with the error whose message carries the instruction, the observed
  and the expected length. If it is \<open>drlen\<close>, \<open>CheckDR\<close> shifts \<open>drlen\<close> zero bits (padded
  for the chain, no idle cycles, capture requested) and returns the device's part of
  the capture as an unsigned integer, with no error. For an expected length above
  64 the result is that integer modulo \<open>2 ^ 64\<close>, as the second part says for every
  length. The closed instances after the theorem are one inside these bounds and
  one outside each of them.
\<close>

theorem CheckDR_verifies:
  assumes "0 \<le> irlenBefore (this w)" and "0 \<le> irlenAfter (this w)"
    and "0 \<le> devsBefore (this w)" and "0 \<le> devsAfter (this w)"
    and "FromUint ir (irlen (this w)) = Inr irbits"
    and "ScanIR (drv (this w)) (padded (irlenBefore (this w)) irbits (irlenAfter (this w)))
           False (hw w) = (Inr x, h1)"
    and "drLength (chain (this w)) h1 = (Inr tot, h2)"
  shows "(wrap64 (tot - devsBefore (this w) - devsAfter (this w)) \<noteq> drlen \<longrightarrow>
            CheckDR ir drlen w =
              (Inl (Errorf (''ir '' @ dec_nat ir @ '' dr length is ''
                            @ dec_int (wrap64 (tot - devsBefore (this w) - devsAfter (this w)))
                            @ '', expected '' @ dec_int drlen)), w\<lparr>hw := h2\<rparr>))
       \<and> (wrap64 (tot - devsBefore (this w) - devsAfter (this w)) = drlen \<and> 0 \<le> drlen \<longrightarrow>
            CheckDR ir drlen w =
              (case ScanDR (drv (this w))
                      (padded (devsBefore (this w)) (replicate (nat drlen) False)
                         (devsAfter (this w))) 0 True h2 of
                 (Inl msg, h3) \<Rightarrow> (Inl (TransportError msg), w\<lparr>hw := h3\<rparr>)
               | (Inr None, h3) \<Rightarrow> (Inl (Panic NilPointer), w\<lparr>hw := h3\<rparr>)
               | (Inr (Some tdo), h3) \<Rightarrow>
                   (if int (length tdo) = devsBefore (this w) + drlen + devsAfter (this w)
                    then Inr (bits_val
                                (stripped (devsBefore (this w)) (devsAfter (this w)) tdo)
                              mod 2 ^ 64)
                    else Inl (Panic RangeError), w\<lparr>hw := h3\<rparr>)))
       \<and> (wrap64 (tot - devsBefore (this w) - devsAfter (this w)) = drlen
            \<and> 0 \<le> drlen \<and> drlen \<le> 64 \<longrightarrow>
            CheckDR ir drlen w =
              (case ScanDR (drv (this w))
                      (padded (devsBefore (this w)) (replicate (nat drlen) False)
                         (devsAfter (this w))) 0 True h2 of
                 (Inl msg, h3) \<Rightarrow> (Inl (TransportError msg), w\<lparr>hw := h3\<rparr>)
               | (Inr None, h3) \<Rightarrow> (Inl (Panic NilPointer), w\<lparr>hw := h3\<rparr>)
               | (Inr (Some tdo), h3) \<Rightarrow>
                   (if int (length tdo) = devsBefore (this w) + drlen + devsAfter (this w)
                    then Inr (bits_val
                                (stripped (devsBefore (this w)) (devsAfter (this w)) tdo))
                    else Inl (Panic RangeError), w\<lparr>hw := h3\<rparr>)))"
proof -
  let ?b = "devsBefore (this w)" and ?a = "devsAfter (this w)"
  let ?n = "wrap64 (tot - ?b - ?a)"
  note ne = CheckDR_mismatch [OF assms(1,2,5,6,7)]
  note gen = CheckDR_match [OF assms]
  have small: "CheckDR ir drlen w =
      (case ScanDR (drv (this w)) (padded ?b (replicate (nat drlen) False) ?a) 0 True h2 of
         (Inl msg, h3) \<Rightarrow> (Inl (TransportError msg), w\<lparr>hw := h3\<rparr>)
       | (Inr None, h3) \<Rightarrow> (Inl (Panic NilPointer), w\<lparr>hw := h3\<rparr>)
       | (Inr (Some tdo), h3) \<Rightarrow>
           (if int (length tdo) = ?b + drlen + ?a
            then Inr (bits_val (stripped ?b ?a tdo))
            else Inl (Panic RangeError), w\<lparr>hw := h3\<rparr>))"
    if "?n = drlen" and "0 \<le> drlen" and "drlen \<le> 64"
  proof -
    have "bits_val (stripped ?b ?a tdo) mod 2 ^ 64 = bits_val (stripped ?b ?a tdo)"
      if l: "int (length tdo) = ?b + drlen + ?a" for tdo
    proof -
      have "length (stripped ?b ?a tdo) \<le> 64"
        using l \<open>drlen \<le> 64\<close> assms(3,4) by (simp add: length_stripped)
      then have "(2::nat) ^ length (stripped ?b ?a tdo) \<le> 2 ^ 64"
        by (intro power_increasing) auto
      with bits_val_less [of "stripped ?b ?a tdo"] show ?thesis
        by simp
    qed
    then show ?thesis
      by (simp add: gen [OF that(1,2)] split: prod.splits sum.splits option.splits)
  qed
  show ?thesis
    using ne gen small by blast
qed

theorem CheckDR_instance:
  "FromUint 10 (irlen (this world_check)) = Inr [True, False, True, False]
   \<and> fst (GetDRLength (snd (WrIR [True, False, True, False] world_check))) = Inr 8
   \<and> fst (CheckDR 10 5 world_check) = Inl (Errorf ''ir 10 dr length is 8, expected 5'')
   \<and> fst (CheckDR 10 8 world_check) = Inr 255
   \<and> hw (snd (CheckDR 10 8 world_check)) =
       [IRScan [True, True, True, True, True, True, False, True, False] False, DRProbe,
        DRScan (True # replicate 8 False) 0 True]"
proof -
  let ?ir = "IRScan [True, True, True, True, True, True, False, True, False] False"
  have a1: "0 \<le> irlenBefore (this world_check)" and a2: "0 \<le> irlenAfter (this world_check)"
    and a3: "0 \<le> devsBefore (this world_check)" and a4: "0 \<le> devsAfter (this world_check)"
    by code_simp+
  have a5: "FromUint 10 (irlen (this world_check)) = Inr [True, False, True, False]"
    by code_simp
  have a6: "ScanIR (drv (this world_check))
      (padded (irlenBefore (this world_check)) [True, False, True, False]
         (irlenAfter (this world_check))) False (hw world_check) = (Inr None, [?ir])"
    by code_simp
  have a7: "drLength (chain (this world_check)) [?ir] = (Inr 9, [?ir, DRProbe])"
    by code_simp
  note T = CheckDR_verifies [OF a1 a2 a3 a4 a5 a6 a7]
  have n: "wrap64 (9 - devsBefore (this world_check) - devsAfter (this world_check)) = 8"
    by code_simp
  have g: "fst (GetDRLength (snd (WrIR [True, False, True, False] world_check))) = Inr 8"
    by code_simp
  have msg: "''ir '' @ dec_nat 10 @ '' dr length is '' @ dec_int 8 @ '', expected '' @ dec_int 5
      = ''ir 10 dr length is 8, expected 5''"
    by code_simp
  have "CheckDR 10 5 world_check =
      (Inl (Errorf (''ir '' @ dec_nat 10 @ '' dr length is '' @ dec_int 8
                    @ '', expected '' @ dec_int 5)), world_check\<lparr>hw := [?ir, DRProbe]\<rparr>)"
    using T [of 5, THEN conjunct1] by (simp only: n)
  then have ne: "fst (CheckDR 10 5 world_check) =
      Inl (Errorf ''ir 10 dr length is 8, expected 5'')"
    by (simp only: msg fst_conv)
  have dr: "ScanDR (drv (this world_check))
      (padded (devsBefore (this world_check)) (replicate (nat 8) False)
         (devsAfter (this world_check))) 0 True [?ir, DRProbe] =
      (Inr (Some (False # replicate 8 True)),
       [?ir, DRProbe, DRScan (True # replicate 8 False) 0 True])"
    by code_simp
  have len: "(int (length (False # replicate 8 True)) =
      devsBefore (this world_check) + 8 + devsAfter (this world_check)) = True"
    by code_simp
  have v: "bits_val (stripped (devsBefore (this world_check)) (devsAfter (this world_check))
      (False # replicate 8 True)) = 255"
    by code_simp
  have "CheckDR 10 8 world_check =
      (Inr 255,
       world_check\<lparr>hw := [?ir, DRProbe, DRScan (True # replicate 8 False) 0 True]\<rparr>)"
    using T [of 8, THEN conjunct2, THEN conjunct2]
    by (simp only: n dr prod.case sum.case option.case len v if_True, simp)
  then have eq: "fst (CheckDR 10 8 world_check) = Inr 255"
    "hw (snd (CheckDR 10 8 world_check)) =
       [?ir, DRProbe, DRScan (True # replicate 8 False) 0 True]"
    by simp_all
  show ?thesis
    using a5 g ne eq by (intro conjI)
qed

theorem CheckDR_limits:
  "drLength (chain (this world_dr65)) [IRScan [True, True, True, True, True, True, False, True, False] False] =
     (Inr 66, [IRScan [True, True, True, True, True, True, False, True, False] False, DRProbe])
   \<and> ScanDR (drv (this world_dr65)) (True # replicate 65 False) 0 True
       [IRScan [True, True, True, True, True, True, False, True, False] False, DRProbe] =
     (Inr (Some (False # replicate 65 True)),
      [IRScan [True, True, True, True, True, True, False, True, False] False, DRProbe,
       DRScan (True # replicate 65 False) 0 True])
   \<and> bits_val (replicate 65 True) = 36893488147419103231
   \<and> fst (CheckDR 10 65 world_dr65) = Inr 18446744073709551615
   \<and> irlen (this world_check) = 4
   \<and> fst (CheckDR 16 8 world_check) = Inl (Panic RangeError)
   \<and> hw (snd (CheckDR 16 8 world_check)) = []
   \<and> fst (GetDRLength (snd (WrIR [True, False, True, False] world_zero))) = Inr (- 1)
   \<and> fst (CheckDR 10 (- 1) world_zero) = Inl (Panic RangeError)"
proof -
  let ?ir = "IRScan [True, True, True, True, True, True, False, True, False] False"
  have a1: "0 \<le> irlenBefore (this world_dr65)" and a2: "0 \<le> irlenAfter (this world_dr65)"
    and a3: "0 \<le> devsBefore (this world_dr65)" and a4: "0 \<le> devsAfter (this world_dr65)"
    by code_simp+
  have b: "devsBefore (this world_dr65) = 1" and a: "devsAfter (this world_dr65) = 0"
    by code_simp+
  have a5: "FromUint 10 (irlen (this world_dr65)) = Inr [True, False, True, False]"
    by code_simp
  have a6: "ScanIR (drv (this world_dr65))
      (padded (irlenBefore (this world_dr65)) [True, False, True, False]
         (irlenAfter (this world_dr65))) False (hw world_dr65) = (Inr None, [?ir])"
    by code_simp
  have a7: "drLength (chain (this world_dr65)) [?ir] = (Inr 66, [?ir, DRProbe])"
    by code_simp
  have a8: "wrap64 (66 - devsBefore (this world_dr65) - devsAfter (this world_dr65)) = 65"
    by code_simp
  have dr: "ScanDR (drv (this world_dr65)) (True # replicate 65 False) 0 True [?ir, DRProbe] =
      (Inr (Some (False # replicate 65 True)),
       [?ir, DRProbe, DRScan (True # replicate 65 False) 0 True])"
    by (simp add: world_dr65_def device_at_def NewDevice_def stub_chain_def stub_drv_def
        chain2_def)
  have pd: "padded (devsBefore (this world_dr65)) (replicate (nat 65) False)
      (devsAfter (this world_dr65)) = True # replicate 65 False"
    by (simp add: a b padded_def)
  have st: "stripped (devsBefore (this world_dr65)) (devsAfter (this world_dr65))
      (False # replicate 65 True) = replicate 65 True"
    by (simp add: a b stripped_take)
  have v: "bits_val (replicate 65 True) = 36893488147419103231"
    by (simp add: bits_val_ones)
  have dr0: "ScanDR (drv (this world_dr65))
      (padded (devsBefore (this world_dr65)) (replicate (nat 65) False)
         (devsAfter (this world_dr65))) 0 True [?ir, DRProbe] =
      (Inr (Some (False # replicate 65 True)),
       [?ir, DRProbe, DRScan (True # replicate 65 False) 0 True])"
    by (simp only: pd dr)
  have len: "(int (length (False # replicate 65 True)) =
      devsBefore (this world_dr65) + 65 + devsAfter (this world_dr65)) = True"
    by (simp add: a b)
  have "CheckDR 10 65 world_dr65 =
      (Inr (bits_val (replicate 65 True) mod 2 ^ 64),
       world_dr65\<lparr>hw := [?ir, DRProbe, DRScan (True # replicate 65 False) 0 True]\<rparr>)"
    using CheckDR_match [OF a1 a2 a3 a4 a5 a6 a7 a8]
    by (simp only: dr0 prod.case sum.case option.case len st if_True)
  then have c: "fst (CheckDR 10 65 world_dr65) = Inr 18446744073709551615"
    by (simp add: v)
  have w: "irlen (this world_check) = 4
      \<and> fst (CheckDR 16 8 world_check) = Inl (Panic RangeError)
      \<and> hw (snd (CheckDR 16 8 world_check)) = []"
    by code_simp
  have z: "fst (GetDRLength (snd (WrIR [True, False, True, False] world_zero))) = Inr (- 1)
      \<and> fst (CheckDR 10 (- 1) world_zero) = Inl (Panic RangeError)"
    by code_simp
  show ?thesis
    using a7 dr v c w z by (intro conjI) simp_all
qed

section \<open>The low bits of a value\<close>




section \<open>The capture self-test\<close>





section \<open>The device is not changed\<close>

lemma WrIR_this: "this (snd (WrIR wr w)) = this w"
  by (simp add: WrIR_def call_drv_def split: prod.splits sum.splits)

lemma RdWrIR_this: "this (snd (RdWrIR wr w)) = this w"
  by (simp add: RdWrIR_def call_drv_def split: prod.splits sum.splits option.splits)

lemma WrDR_this: "this (snd (WrDR wr idle w)) = this w"
  by (simp add: WrDR_def call_drv_def split: prod.splits sum.splits)

lemma RdWrDR_this: "this (snd (RdWrDR wr idle w)) = this w"
  by (simp add: RdWrDR_def call_drv_def split: prod.splits sum.splits option.splits)

lemma GetDRLength_this: "this (snd (GetDRLength w)) = this w"
  by (simp add: GetDRLength_def call_drv_def split: prod.splits sum.splits)

lemma WrIR_thisD: "WrIR wr w = (r, w') \<Longrightarrow> this w' = this w"
  using WrIR_this [of wr w] by simp

lemma RdWrIR_thisD: "RdWrIR wr w = (r, w') \<Longrightarrow> this w' = this w"
  using RdWrIR_this [of wr w] by simp

lemma RdWrDR_thisD: "RdWrDR wr idle w = (r, w') \<Longrightarrow> this w' = this w"
  using RdWrDR_this [of wr idle w] by simp

lemma GetDRLength_thisD: "GetDRLength w = (r, w') \<Longrightarrow> this w' = this w"
  using GetDRLength_this [of w] by simp

lemma call_drv_thisD: "call_drv f w = (r, w') \<Longrightarrow> this w' = this w"
  using call_drv_this [of f w] by simp

lemma testIRCapture_this: "this (snd (testIRCapture w)) = this w"
  by (auto simp: testIRCapture_def split: prod.splits sum.splits dest: RdWrIR_thisD)

lemma CheckDR_this: "this (snd (CheckDR ir drlen w)) = this w"
  by (auto simp: CheckDR_def split: prod.splits sum.splits error.splits
      dest!: WrIR_thisD GetDRLength_thisD RdWrDR_thisD)

declare survey_loop.simps [simp del]

lemma survey_loop_done:
  "shl1 (irlen (this w)) = Inr lim \<Longrightarrow> \<not> ir < lim \<Longrightarrow> survey_loop ir s w = (Inr s, w)"
  by (subst survey_loop.simps) simp

lemma survey_loop_this_aux:
  "shl1 (irlen (this w)) = Inr lim \<Longrightarrow> nat (lim - ir) = k \<Longrightarrow>
   this (snd (survey_loop ir s w)) = this w"
proof (induction k arbitrary: ir s w)
  case 0
  then show ?case
    by (simp add: survey_loop_done)
next
  case (Suc k)
  have lt: "ir < lim"
    using Suc.prems(2) by simp
  have IH: "this (snd (survey_loop (ir + 1) s' w')) = this w" if "this w' = this w" for s' w'
    using Suc.IH [of w' "ir + 1" s'] Suc.prems that by simp
  show ?case
    apply (subst survey_loop.simps)
    apply (auto simp: Suc.prems(1) lt IH split: sum.splits prod.splits error.splits
        dest!: WrIR_thisD call_drv_thisD)
    done
qed

lemma survey_loop_this: "this (snd (survey_loop ir s w)) = this w"
proof (cases "shl1 (irlen (this w))")
  case (Inl e)
  then show ?thesis
    by (subst survey_loop.simps) simp
next
  case (Inr lim)
  then show ?thesis
    by (rule survey_loop_this_aux) simp
qed

lemma Survey_this: "this (snd (Survey w)) = this w"
  using survey_loop_this [of 0 "[]" w]
  by (auto simp: Survey_def split: prod.splits sum.splits)

text \<open>
  C10: no operation of a device changes the device: after \<open>WrIR\<close>, \<open>RdWrIR\<close>, \<open>WrDR\<close>,
  \<open>RdWrDR\<close>, \<open>testIRCapture\<close>, \<open>GetDRLength\<close>, \<open>CheckDR\<close>, \<open>Survey\<close> and the getters
  the receiver has the fields it had before, for every argument and every driver,
  whether the operation succeeds, fails or panics.
\<close>

theorem Device_unchanged:
  "this (snd (WrIR wr w)) = this w
   \<and> this (snd (RdWrIR wr w)) = this w
   \<and> this (snd (WrDR wr idle w)) = this w
   \<and> this (snd (RdWrDR wr idle w)) = this w
   \<and> this (snd (testIRCapture w)) = this w
   \<and> this (snd (GetIRLength w)) = this w
   \<and> this (snd (GetDRLength w)) = this w
   \<and> this (snd (CheckDR ir drlen w)) = this w
   \<and> this (snd (GetIDCode w)) = this w
   \<and> this (snd (Survey w)) = this w"
  by (simp add: WrIR_this RdWrIR_this WrDR_this RdWrDR_this testIRCapture_this
      GetDRLength_this CheckDR_this Survey_this GetIRLength_def GetIDCode_def)


section \<open>The survey\<close>

lemma shl1_small: "0 \<le> n \<Longrightarrow> n \<le> 62 \<Longrightarrow> shl1 n = Inr (2 ^ nat n)"
proof -
  assume n: "0 \<le> n" "n \<le> 62"
  have "(2::int) ^ nat n \<le> 2 ^ 62"
    using n by (intro power_increasing) auto
  also have "\<dots> < (2::int) ^ 63"
    by simp
  finally have hi: "(2::int) ^ nat n < 2 ^ 63" .
  have "- (2 ^ 63) \<le> (0::int)"
    by simp
  also have "\<dots> \<le> 2 ^ nat n"
    by simp
  finally have lo: "- (2 ^ 63) \<le> (2::int) ^ nat n" .
  have "sint (push_bit (nat n) (1 :: 64 word)) =
      signed_take_bit (LENGTH(64) - Suc 0) (push_bit (nat n) (sint (1 :: 64 word)))"
    by (rule signed_push_bit_eq)
  also have "\<dots> = signed_take_bit 63 ((2::int) ^ nat n)"
    by (simp add: push_bit_eq_mult)
  also have "\<dots> = 2 ^ nat n"
    using lo hi by (rule signed_take_bit_int_eq_self)
  finally have "sint (push_bit (nat n) (1 :: 64 word)) = 2 ^ nat n" .
  then show ?thesis
    using n by (simp add: shl1_def)
qed

lemma uint64_small: "0 \<le> i \<Longrightarrow> i < 2 ^ 64 \<Longrightarrow> uint64 i = nat i"
  by (simp add: uint64_def)

lemma survey_loop_value:
  assumes "shl1 (irlen (this w)) = Inr lim" and "ir < lim" and "uint64 ir = nat ir"
  shows "survey_loop ir s w =
     (case survey_value ir w of
        (Inl e, w1) \<Rightarrow> (Inl e, w1)
      | (Inr line, w1) \<Rightarrow> survey_loop (ir + 1) (s @ [line]) w1)"
  apply (subst survey_loop.simps)
  apply (simp add: assms survey_value_def GetDRLength_def
      split: sum.splits prod.splits error.splits)
  done

lemma survey_value_this: "survey_value v w = (r, w') \<Longrightarrow> this w' = this w"
  by (auto simp: survey_value_def split: sum.splits prod.splits error.splits
      dest!: WrIR_thisD GetDRLength_thisD)

lemma survey_loop_spec:
  "shl1 (irlen (this w)) = Inr lim \<Longrightarrow> 0 \<le> ir \<Longrightarrow> lim \<le> 2 ^ 64 \<Longrightarrow> nat (lim - ir) = k \<Longrightarrow>
   survey_loop ir s w =
     (case survey_spec [ir .. lim - 1] w of
        (Inl e, w') \<Rightarrow> (Inl e, w')
      | (Inr ls, w') \<Rightarrow> (Inr (s @ ls), w'))"
proof (induction k arbitrary: ir s w)
  case 0
  then show ?case
    by (simp add: survey_loop_done)
next
  case (Suc k)
  have lt: "ir < lim"
    using Suc.prems(4) by simp
  have u: "uint64 ir = nat ir"
    using Suc.prems(2,3) lt by (simp add: uint64_small)
  have up: "[ir .. lim - 1] = ir # [ir + 1 .. lim - 1]"
    using lt by (simp add: upto_rec1)
  have IH: "survey_loop (ir + 1) s' w' =
     (case survey_spec [ir + 1 .. lim - 1] w' of
        (Inl e, w'') \<Rightarrow> (Inl e, w'')
      | (Inr ls, w'') \<Rightarrow> (Inr (s' @ ls), w''))" if "this w' = this w" for s' w'
    using Suc.IH [of w' "ir + 1" s'] Suc.prems that by simp
  show ?case
    by (auto simp: survey_loop_value [OF Suc.prems(1) lt u] up IH
        split: sum.splits prod.splits dest!: survey_value_this)
qed


lemma survey_value_line:
  assumes "0 \<le> irlen (this w)" and "0 \<le> irlenBefore (this w)" and "0 \<le> irlenAfter (this w)"
    and "0 \<le> v" and "v < 2 ^ nat (irlen (this w))"
  shows "\<exists>l w'. survey_value v w = (Inr l, w') \<and> this w' = this w
           \<and> (l = ''ir '' @ dec_int v @ '' can't write ir''
              \<or> l = ''ir '' @ dec_int v @ '' drlen unknown''
              \<or> (\<exists>m. l = ''ir '' @ dec_int v @ '' drlen '' @ dec_int m))"
proof -
  have "nat v < 2 ^ nat (irlen (this w))"
    using assms(4,5) by (simp add: nat_less_iff)
  then obtain b where b: "FromUint (nat v) (irlen (this w)) = Inr b"
    using assms(1) by (simp add: FromUint_def)
  obtain r w1 where wr: "WrIR b w = (r, w1)"
    by (cases "WrIR b w")
  have t1: "this w1 = this w"
    using wr by (rule WrIR_thisD)
  have r: "(\<exists>msg. r = Inl (TransportError msg)) \<or> r = Inr ()"
    using wr assms(2,3) by (auto simp: WrIR_scan split: prod.splits sum.splits)
  obtain g w2 where g: "GetDRLength w1 = (g, w2)"
    by (cases "GetDRLength w1")
  have t2: "this w2 = this w"
    using GetDRLength_thisD [OF g] t1 by simp
  show ?thesis
    using r by (cases g) (auto simp: survey_value_def b wr g t1 t2)
qed

lemma survey_spec_lines:
  assumes "0 \<le> irlen (this w)" and "0 \<le> irlenBefore (this w)" and "0 \<le> irlenAfter (this w)"
    and "\<forall>v \<in> set vs. 0 \<le> v \<and> v < 2 ^ nat (irlen (this w))"
  shows "\<exists>ls w'. survey_spec vs w = (Inr ls, w') \<and> this w' = this w
           \<and> length ls = length vs
           \<and> (\<forall>i < length vs.
                 ls ! i = ''ir '' @ dec_int (vs ! i) @ '' can't write ir''
               \<or> ls ! i = ''ir '' @ dec_int (vs ! i) @ '' drlen unknown''
               \<or> (\<exists>m. ls ! i = ''ir '' @ dec_int (vs ! i) @ '' drlen '' @ dec_int m))"
  using assms
proof (induction vs arbitrary: w)
  case Nil
  then show ?case
    by simp
next
  case (Cons v vs)
  from Cons.prems obtain l w1 where v: "survey_value v w = (Inr l, w1)"
    and t1: "this w1 = this w"
    and l: "l = ''ir '' @ dec_int v @ '' can't write ir''
          \<or> l = ''ir '' @ dec_int v @ '' drlen unknown''
          \<or> (\<exists>m. l = ''ir '' @ dec_int v @ '' drlen '' @ dec_int m)"
    using survey_value_line [of w v] by auto
  from Cons.prems t1 obtain ls w2 where s: "survey_spec vs w1 = (Inr ls, w2)"
    and t2: "this w2 = this w1"
    and n: "length ls = length vs"
    and ls: "\<forall>i < length vs.
                 ls ! i = ''ir '' @ dec_int (vs ! i) @ '' can't write ir''
               \<or> ls ! i = ''ir '' @ dec_int (vs ! i) @ '' drlen unknown''
               \<or> (\<exists>m. ls ! i = ''ir '' @ dec_int (vs ! i) @ '' drlen '' @ dec_int m)"
    using Cons.IH [of w1] by auto
  have "\<forall>i < length (v # vs).
                 (l # ls) ! i = ''ir '' @ dec_int ((v # vs) ! i) @ '' can't write ir''
               \<or> (l # ls) ! i = ''ir '' @ dec_int ((v # vs) ! i) @ '' drlen unknown''
               \<or> (\<exists>m. (l # ls) ! i = ''ir '' @ dec_int ((v # vs) ! i) @ '' drlen '' @ dec_int m)"
  proof (intro allI impI)
    fix i
    assume "i < length (v # vs)"
    then show "(l # ls) ! i = ''ir '' @ dec_int ((v # vs) ! i) @ '' can't write ir''
               \<or> (l # ls) ! i = ''ir '' @ dec_int ((v # vs) ! i) @ '' drlen unknown''
               \<or> (\<exists>m. (l # ls) ! i = ''ir '' @ dec_int ((v # vs) ! i) @ '' drlen '' @ dec_int m)"
      using l ls by (cases i) simp_all
  qed
  then show ?case
    using v s t1 t2 n by simp
qed


declare dec_nat.simps [simp del]

lemma dec_nat_digits: "set (dec_nat n) \<subseteq> set ''0123456789''"
proof (induction n rule: dec_nat.induct)
  case (1 n)
  have d: "''0123456789'' ! k \<in> set ''0123456789''" if "k < 10" for k
    using that by (intro nth_mem) simp
  show ?case
  proof (cases "n < 10")
    case True
    then show ?thesis
      using d [of n] by (subst dec_nat.simps) simp
  next
    case False
    have "n mod 10 < 10"
      by simp
    then show ?thesis
      using False 1 d [of "n mod 10"] by (subst dec_nat.simps) simp
  qed
qed

lemma dec_int_no_newline: "CHR 0x0A \<notin> set (dec_int i)"
  using dec_nat_digits [of "nat i"] dec_nat_digits [of "nat (- i)"]
  by (auto simp: dec_int_def)

lemma filter_absent: "c \<notin> set x \<Longrightarrow> filter (\<lambda>d. d = c) x = []"
  by (induction x) auto

lemma Join_newlines:
  "\<forall>l \<in> set ls. CHR 0x0A \<notin> set l \<Longrightarrow>
   length (filter (\<lambda>c. c = CHR 0x0A) (Join ls [CHR 0x0A])) = length ls - 1"
  by (induction ls "[CHR 0x0A]" rule: Join.induct) (simp_all add: filter_absent)


text \<open>
  C8, for an instruction register of at most 62 bits: \<open>Survey\<close> goes through the
  values \<open>0, 1, \<dots>, 2 ^ irlen - 1\<close> in ascending order as \<open>survey_spec\<close> does, writing
  each value to the instruction register and probing the data register length, and
  returns the lines joined by newlines: exactly \<open>2 ^ irlen\<close> lines, the line of the
  value \<open>i\<close> being \<open>ir i drlen m\<close> or one of the two error lines of \<open>i\<close>. A failure for one
  value does not end the survey. The bound of 62 bits is needed: with 63 bits
  \<open>1 << irlen\<close> is negative in Go's \<open>int\<close> and the loop does not run, as the second
  closed instance after the theorem shows.
\<close>

theorem Survey_report:
  assumes "0 \<le> irlen (this w)" and "irlen (this w) \<le> 62"
    and "0 \<le> irlenBefore (this w)" and "0 \<le> irlenAfter (this w)"
  shows "\<exists>ls w'. survey_spec [0 .. 2 ^ nat (irlen (this w)) - 1] w = (Inr ls, w')
           \<and> Survey w = (Inr (Join ls [CHR 0x0A]), w')
           \<and> length ls = 2 ^ nat (irlen (this w))
           \<and> (\<forall>i < length ls.
                 ls ! i = ''ir '' @ dec_int (int i) @ '' can't write ir''
               \<or> ls ! i = ''ir '' @ dec_int (int i) @ '' drlen unknown''
               \<or> (\<exists>m. ls ! i = ''ir '' @ dec_int (int i) @ '' drlen '' @ dec_int m))
           \<and> length (filter (\<lambda>c. c = CHR 0x0A) (Join ls [CHR 0x0A])) =
               2 ^ nat (irlen (this w)) - 1"
proof -
  let ?lim = "(2::int) ^ nat (irlen (this w))"
  let ?vs = "[0 .. ?lim - 1]"
  have lim: "shl1 (irlen (this w)) = Inr ?lim"
    using assms(1,2) by (rule shl1_small)
  have "?lim \<le> 2 ^ 62"
    using assms(1,2) by (intro power_increasing) auto
  then have le: "?lim \<le> 2 ^ 64"
    by simp
  have loop: "survey_loop 0 [] w =
     (case survey_spec ?vs w of
        (Inl e, w') \<Rightarrow> (Inl e, w')
      | (Inr ls, w') \<Rightarrow> (Inr ([] @ ls), w'))"
    using lim _ le by (rule survey_loop_spec) simp_all
  have len: "length ?vs = 2 ^ nat (irlen (this w))"
    by (simp add: nat_power_eq)
  have nth: "?vs ! i = int i" if "i < length ?vs" for i
  proof -
    from that have "i < 2 ^ nat (irlen (this w))"
      unfolding len .
    then have "int i < int (2 ^ nat (irlen (this w)))"
      by (simp only: of_nat_less_iff)
    then have "0 + int i \<le> ?lim - 1"
      by simp
    then show ?thesis
      by (simp only: nth_upto)
  qed
  have "\<forall>v \<in> set ?vs. 0 \<le> v \<and> v < ?lim"
    by simp
  with assms obtain ls w' where s: "survey_spec ?vs w = (Inr ls, w')"
    and n: "length ls = length ?vs"
    and ls: "\<forall>i < length ?vs.
                 ls ! i = ''ir '' @ dec_int (?vs ! i) @ '' can't write ir''
               \<or> ls ! i = ''ir '' @ dec_int (?vs ! i) @ '' drlen unknown''
               \<or> (\<exists>m. ls ! i = ''ir '' @ dec_int (?vs ! i) @ '' drlen '' @ dec_int m)"
    using survey_spec_lines [of w ?vs] by blast
  have form: "ls ! i = ''ir '' @ dec_int (int i) @ '' can't write ir''
               \<or> ls ! i = ''ir '' @ dec_int (int i) @ '' drlen unknown''
               \<or> (\<exists>m. ls ! i = ''ir '' @ dec_int (int i) @ '' drlen '' @ dec_int m)"
    if "i < length ls" for i
    using ls [rule_format, of i] that n nth [of i] by simp
  have "CHR 0x0A \<notin> set l" if "l \<in> set ls" for l
  proof -
    from that obtain i where "i < length ls" and "l = ls ! i"
      by (auto simp: in_set_conv_nth)
    then show ?thesis
      using form [of i] by (auto simp: dec_int_no_newline)
  qed
  then have nl: "length (filter (\<lambda>c. c = CHR 0x0A) (Join ls [CHR 0x0A])) = length ls - 1"
    by (intro Join_newlines) simp
  have r: "Survey w = (Inr (Join ls [CHR 0x0A]), w')"
    by (simp add: Survey_def loop s)
  have n': "length ls = 2 ^ nat (irlen (this w))"
    unfolding n len ..
  have nl': "length (filter (\<lambda>c. c = CHR 0x0A) (Join ls [CHR 0x0A])) =
      2 ^ nat (irlen (this w)) - 1"
    unfolding nl n' ..
  show ?thesis
    using s r n' form nl' by blast
qed

theorem Survey_irlen2:
  "irlen (this world_survey) = 2
   \<and> fst (Survey world_survey) =
       Inr (Join [''ir 0 drlen 1'', ''ir 1 drlen 1'', ''ir 2 can't write ir'', ''ir 3 drlen 1'']
              [CHR 0x0A])
   \<and> hw (snd (Survey world_survey)) =
       [IRScan [False, False] False, DRProbe, IRScan [False, True] False, DRProbe,
        IRScan [True, False] False, IRScan [True, True] False, DRProbe]"
proof -
  have a: "0 \<le> irlen (this world_survey)" "irlen (this world_survey) \<le> 62"
    "0 \<le> irlenBefore (this world_survey)" "0 \<le> irlenAfter (this world_survey)"
    by code_simp+
  have l: "irlen (this world_survey) = 2"
    by code_simp
  from Survey_report [OF a] obtain ls w'
    where s: "survey_spec [0 .. 2 ^ nat (irlen (this world_survey)) - 1] world_survey = (Inr ls, w')"
      and r: "Survey world_survey = (Inr (Join ls [CHR 0x0A]), w')"
    by blast
  have "fst (survey_spec [0 .. 2 ^ nat (irlen (this world_survey)) - 1] world_survey) =
      Inr [''ir 0 drlen 1'', ''ir 1 drlen 1'', ''ir 2 can't write ir'', ''ir 3 drlen 1'']"
    by code_simp
  with s have ls: "ls = [''ir 0 drlen 1'', ''ir 1 drlen 1'', ''ir 2 can't write ir'', ''ir 3 drlen 1'']"
    by simp
  have "hw (snd (survey_spec [0 .. 2 ^ nat (irlen (this world_survey)) - 1] world_survey)) =
       [IRScan [False, False] False, DRProbe, IRScan [False, True] False, DRProbe,
        IRScan [True, False] False, IRScan [True, True] False, DRProbe]"
    by code_simp
  with s have h: "hw w' =
       [IRScan [False, False] False, DRProbe, IRScan [False, True] False, DRProbe,
        IRScan [True, False] False, IRScan [True, True] False, DRProbe]"
    by simp
  show ?thesis
    using l r ls h by simp
qed

theorem Survey_irlen63:
  "irlen (this world_wide) = 63
   \<and> fst (Survey world_wide) = Inr []
   \<and> hw (snd (Survey world_wide)) = []"
  by code_simp


end
